theory Spec2Isabelle
  imports Main "HOL-Library.AList"
begin

section \<open>Cascade removal of installed components\<close>

text \<open>
  The development embeds \<^verbatim>\<open>ComponentRemove.remove\<close> of
  \<^verbatim>\<open>nf_core/components/remove.py\<close>. The method works on two
  pieces of durable state: the registry file \<^verbatim>\<open>modules.json\<close> and the component
  directories below the pipeline directory. Remote URL and repository path are fixed
  by the calling context (\<^verbatim>\<open>self.modules_repo\<close>) and passed through unchanged,
  so the registry is the part of \<^verbatim>\<open>modules.json\<close> below that remote and path, keyed
  by component type and name. The set-up calls of lines 33 to 37 and the loading of the
  registry on lines 52 and 53 are taken to have succeeded; the interactive prompt of
  lines 41 to 46 is replaced by the name it returns.
\<close>

subsection \<open>Data model\<close>

text \<open>The two values of \<^verbatim>\<open>self.component_type\<close>: "modules" and "subworkflows".\<close>

datatype component_type = Modules | Subworkflows

type_synonym component_key = "component_type \<times> string"

text \<open>
  One entry of the registry:
  \<^verbatim>\<open>{ "branch": str, "git_sha": str, "installed_by": [str, ...] }\<close>.
\<close>

record component_record =
  branch :: string
  git_sha :: string
  installed_by :: "string list"

text \<open>
  The registry is a JSON object, that is an insertion-ordered dictionary: an association
  list read through \<open>map_of\<close>, changed with \<open>AList.update\<close> and \<open>AList.delete\<close>.
\<close>

type_synonym registry = "(component_key \<times> component_record) list"

text \<open>The \<^verbatim>\<open>dependent_components\<close> dictionary of line 65: name to component type.\<close>

type_synonym components_dict = "(string \<times> component_type) list"

text \<open>
  Modelled from the spec: the marker that \<^verbatim>\<open>installed_by\<close> holds for a component
  installed explicitly by a user is not among the sources; section 3 calls it the
  sentinel "direct".
\<close>

definition direct :: string where
  "direct = ''direct''"

text \<open>The error that the deletion of a directory can raise (section 4.4).\<close>

datatype error = IOFailure

text \<open>
  The pipeline directory: the registry, the component directories that exist, and the
  existing directories whose deletion fails. The path of a component,
  \<^verbatim>\<open>Path(self.dir, component_type, repo_path, component_name)\<close>, is a function of
  type and name (the path resolver of section 6), so a directory is named by its key;
  directories of different keys are taken to be disjoint trees.
\<close>

record pipeline =
  modules_json :: registry
  dirs :: "component_key set"
  undeletable :: "component_key set"

text \<open>The fields of \<^verbatim>\<open>self\<close> that \<^verbatim>\<open>remove\<close> reads.\<close>

record component_command =
  repo_type :: string
  component_type :: component_type

subsection \<open>Registry store\<close>

text \<open>The record stored in the registry under a component type and a name, if any.\<close>

definition lookup :: "registry \<Rightarrow> component_type \<Rightarrow> string \<Rightarrow> component_record option" where
  "lookup reg ct name = map_of reg (ct, name)"

text \<open>
  Modelled from the spec: \<^verbatim>\<open>ModulesJson.module_present\<close> is not among the sources.
  Line 59 calls it with the name, the remote and the repository path, and with no
  component type, on an object built from the pipeline directory alone. It is the
  registry lookup of section 4.1, \<^verbatim>\<open>Lookup(kind, name, remoteURL, repoPath)\<close>, asked
  whether it finds a record, for the kind that the method is named for: a module.
\<close>

definition module_present :: "registry \<Rightarrow> string \<Rightarrow> bool" where
  "module_present reg name = (lookup reg Modules name \<noteq> None)"

text \<open>
  Modelled from the spec: how \<^verbatim>\<open>remove_entry\<close> reads its \<^verbatim>\<open>removed_by\<close>
  argument is not among the sources. \<^verbatim>\<open>remove\<close> passes \<^verbatim>\<open>removed_by=None\<close>
  for a module (lines 64 and 82) and leaves the argument out on line 61; section 4.3,
  step 1, names the parent link revoked for a module: "direct". A name that is passed
  is the parent link itself (step 2).
\<close>

definition parent_link :: "string option \<Rightarrow> string" where
  "parent_link removed_by = (case removed_by of None \<Rightarrow> direct | Some p \<Rightarrow> p)"

text \<open>
  Modelled from the spec: \<^verbatim>\<open>ModulesJson.remove_entry\<close> is not among the sources.
  It is \<^verbatim>\<open>DeleteIfUnreferenced(kind, name, remoteURL, repoPath, parentToRemove)\<close> of
  section 4.1: it removes the parent from the record's \<^verbatim>\<open>installedBy\<close>; if nothing is
  left it deletes the record and answers Removed (\<open>True\<close>), otherwise it stores the
  reduced record and answers Kept (\<open>False\<close>). Without a record there is nothing to
  remove. The registry returned is the one written back to \<^verbatim>\<open>modules.json\<close>.
\<close>

definition remove_entry ::
  "registry \<Rightarrow> component_type \<Rightarrow> string \<Rightarrow> string option \<Rightarrow> bool \<times> registry" where
  "remove_entry reg ct name removed_by =
     (case lookup reg ct name of
        None \<Rightarrow> (False, reg)
      | Some e \<Rightarrow>
          (let remaining = removeAll (parent_link removed_by) (installed_by e)
           in if remaining = [] then (True, AList.delete (ct, name) reg)
              else (False, AList.update (ct, name) (e\<lparr>installed_by := remaining\<rparr>) reg)))"

subsection \<open>Dependency resolver\<close>

text \<open>The keys of the records whose \<^verbatim>\<open>installedBy\<close> contains \<open>name\<close>, in registry order.\<close>

definition installed_by_component :: "registry \<Rightarrow> string \<Rightarrow> component_key list" where
  "installed_by_component reg name =
     filter (\<lambda>(ct, n). case lookup reg ct n of
                          None \<Rightarrow> False
                        | Some e \<Rightarrow> name \<in> set (installed_by e))
            (remdups (map fst reg))"

text \<open>
  Modelled from the spec: the traversal of \<^verbatim>\<open>ResolveDependents\<close> (section 4.2). For
  the name at the head of the work list it finds every component whose
  \<^verbatim>\<open>installedBy\<close> contains that name, adds the ones not visited before to the
  visited keys, and queues the subworkflows among them for the same treatment. The
  visited set is keyed by kind and name.
\<close>

function dependents :: "registry \<Rightarrow> string list \<Rightarrow> component_key list \<Rightarrow> component_key list" where
  "dependents reg [] visited = visited"
| "dependents reg (name # todo) visited =
     (let found = filter (\<lambda>k. k \<notin> set visited) (installed_by_component reg name)
      in dependents reg
           (todo @ map snd (filter (\<lambda>k. fst k = Subworkflows) found))
           (visited @ found))"
  by pat_completeness auto

termination dependents
proof (relation "measures [\<lambda>(reg, todo, visited). card (fst ` set reg - set visited),
                            \<lambda>(reg, todo, visited). length todo]")
  show "wf (measures [\<lambda>(reg, todo, visited). card (fst ` set reg - set visited),
                      \<lambda>(reg, todo, visited). length todo])"
    by simp
next
  fix reg :: registry and name :: string and todo :: "string list"
    and visited found :: "component_key list"
  assume f: "found = filter (\<lambda>k. k \<notin> set visited) (installed_by_component reg name)"
  show "((reg, todo @ map snd (filter (\<lambda>k. fst k = Subworkflows) found), visited @ found),
         (reg, name # todo, visited))
        \<in> measures [\<lambda>(reg, todo, visited). card (fst ` set reg - set visited),
                     \<lambda>(reg, todo, visited). length todo]"
  proof (cases "found = []")
    case True
    then show ?thesis by simp
  next
    case False
    then obtain k where k: "k \<in> set found" by (cases found) auto
    have sub: "set found \<subseteq> fst ` set reg - set visited"
      using f by (auto simp: installed_by_component_def)
    have "k \<in> fst ` set reg - set visited" using k sub by auto
    moreover have "k \<notin> fst ` set reg - (set visited \<union> set found)" using k by simp
    moreover have "fst ` set reg - (set visited \<union> set found) \<subseteq> fst ` set reg - set visited"
      by auto
    ultimately have "fst ` set reg - (set visited \<union> set found) \<subset> fst ` set reg - set visited"
      by blast
    then have "card (fst ` set reg - (set visited \<union> set found))
                 < card (fst ` set reg - set visited)"
      by (simp add: psubset_card_mono)
    then show ?thesis by simp
  qed
qed

text \<open>Python's \<^verbatim>\<open>d.update(other)\<close> on dictionaries.\<close>

definition dict_update :: "components_dict \<Rightarrow> components_dict \<Rightarrow> components_dict" where
  "dict_update d other = foldl (\<lambda>acc (k, v). AList.update k v acc) d other"

text \<open>
  Modelled from the spec: \<^verbatim>\<open>ModulesJson.get_dependent_components\<close> is not among the
  sources. It is \<^verbatim>\<open>ResolveDependents(kind, name, remoteURL, repoPath)\<close> of section 4.2,
  a mapping from name to kind: for a module only the module itself; for a subworkflow
  the components found by the traversal. The entries of the dictionary passed in (line
  70, the component being removed) count as visited.
\<close>

definition get_dependent_components ::
  "registry \<Rightarrow> component_type \<Rightarrow> string \<Rightarrow> components_dict \<Rightarrow> components_dict" where
  "get_dependent_components reg ct name dependent_components =
     (case ct of
        Modules \<Rightarrow> [(name, Modules)]
      | Subworkflows \<Rightarrow>
          (let visited = map (\<lambda>(n, t). (t, n)) dependent_components
           in dict_update []
                (map (\<lambda>(t, n). (n, t))
                   (drop (length visited) (dependents reg [name] visited)))))"

subsection \<open>Filesystem synchronizer\<close>

text \<open>
  Modelled from the spec: \<^verbatim>\<open>ComponentCommand.clear_component_dir\<close> is not among the
  sources. It is \<^verbatim>\<open>DeleteTree(path)\<close> of section 4.4: true if something was deleted,
  false (and no error) for a path that does not exist, \<^verbatim>\<open>IOFailure\<close> when the
  deletion fails. Its first argument, the name of the component being removed, does
  not select the path.
\<close>

definition clear_component_dir ::
  "pipeline \<Rightarrow> string \<Rightarrow> component_key \<Rightarrow> (error + bool) \<times> pipeline" where
  "clear_component_dir st component component_dir =
     (if component_dir \<notin> dirs st then (Inr False, st)
      else if component_dir \<in> undeletable st then (Inl IOFailure, st)
      else (Inr True, st\<lparr>dirs := dirs st - {component_dir}\<rparr>))"

subsection \<open>Cascade removal engine\<close>

text \<open>The body of the loop of lines 76 to 87, for one entry of the dictionary.\<close>

definition remove_component ::
  "string option \<Rightarrow> string \<Rightarrow> string \<times> component_type \<Rightarrow> bool \<Rightarrow> pipeline
     \<Rightarrow> (error + bool) \<times> pipeline" where
  "remove_component removed_by component item removed st =
     (case item of (component_name, ct) \<Rightarrow>
        (case remove_entry (modules_json st) ct component_name removed_by of
           (removed_component, reg) \<Rightarrow>
             (let st1 = st\<lparr>modules_json := reg\<rparr>
              in if removed_component then
                   (case clear_component_dir st1 component (ct, component_name) of
                      (Inl e, st2) \<Rightarrow> (Inl e, st2)
                    | (Inr cleared, st2) \<Rightarrow> (Inr (cleared \<or> removed), st2))
                 else (Inr removed, st1))))"

fun remove_loop ::
  "string option \<Rightarrow> string \<Rightarrow> components_dict \<Rightarrow> bool \<Rightarrow> pipeline
     \<Rightarrow> (error + bool) \<times> pipeline" where
  "remove_loop removed_by component [] removed st = (Inr removed, st)"
| "remove_loop removed_by component (item # items) removed st =
     (case remove_component removed_by component item removed st of
        (Inl e, st1) \<Rightarrow> (Inl e, st1)
      | (Inr removed1, st1) \<Rightarrow> remove_loop removed_by component items removed1 st1)"

text \<open>Lines 64 to 72: the parent link and the dictionary of candidates.\<close>

definition removed_by_of :: "component_type \<Rightarrow> string \<Rightarrow> string option" where
  "removed_by_of ct component = (if ct = Subworkflows then Some component else None)"

definition dependent_components_of ::
  "registry \<Rightarrow> component_type \<Rightarrow> string \<Rightarrow> components_dict" where
  "dependent_components_of reg ct component =
     (let dependent_components = [(component, ct)]
      in if ct = Subworkflows
         then dict_update dependent_components
                (get_dependent_components reg ct component dependent_components)
         else dependent_components)"

text \<open>\<^verbatim>\<open>ComponentRemove.remove\<close>: the result and the pipeline directory afterwards.\<close>

definition remove ::
  "component_command \<Rightarrow> pipeline \<Rightarrow> string \<Rightarrow> (error + bool) \<times> pipeline" where
  "remove self st component =
     (if repo_type self = ''modules'' then (Inr False, st)
      else if (component_type self, component) \<notin> dirs st then
        (if module_present (modules_json st) component
         then (Inr False,
               st\<lparr>modules_json :=
                    snd (remove_entry (modules_json st) (component_type self) component None)\<rparr>)
         else (Inr False, st))
      else remove_loop (removed_by_of (component_type self) component) component
             (dependent_components_of (modules_json st) (component_type self) component)
             False st)"

subsection \<open>Relating the pipeline directory before and after\<close>

text \<open>
  From \<open>st\<close> to \<open>st'\<close> directories only disappear, and a directory that
  disappeared belonged to a registry entry that was destroyed; no entry appears.
\<close>

definition lock_step :: "pipeline \<Rightarrow> pipeline \<Rightarrow> bool" where
  "lock_step st st' \<longleftrightarrow>
     dirs st' \<subseteq> dirs st
   \<and> undeletable st' = undeletable st
   \<and> (\<forall>ct n. (ct, n) \<in> dirs st - dirs st' \<longrightarrow>
         lookup (modules_json st) ct n \<noteq> None \<and> lookup (modules_json st') ct n = None)
   \<and> (\<forall>ct n. lookup (modules_json st) ct n = None \<longrightarrow> lookup (modules_json st') ct n = None)"

subsection \<open>Pipelines used as examples\<close>

definition entry :: "string list \<Rightarrow> component_record" where
  "entry parents = \<lparr>branch = ''master'', git_sha = ''0f1e2d'', installed_by = parents\<rparr>"

definition pipeline_command :: "component_type \<Rightarrow> component_command" where
  "pipeline_command ct = \<lparr>repo_type = ''pipeline'', component_type = ct\<rparr>"

definition modules_repo_command :: "component_type \<Rightarrow> component_command" where
  "modules_repo_command ct = \<lparr>repo_type = ''modules'', component_type = ct\<rparr>"

text \<open>
  The transitive cascade scenario of section 8 of the specification: subworkflow SW1
  installed directly, module M1 installed by SW1, module M2 installed by SW1 and SW2,
  and the separate subworkflow SW2; every component has its directory.
\<close>

definition cascade_pipeline :: pipeline where
  "cascade_pipeline =
     \<lparr>modules_json =
        [((Subworkflows, ''SW1''), entry [direct]),
         ((Modules, ''M1''), entry [''SW1'']),
         ((Modules, ''M2''), entry [''SW1'', ''SW2'']),
         ((Subworkflows, ''SW2''), entry [direct])],
      dirs = {(Subworkflows, ''SW1''), (Modules, ''M1''), (Modules, ''M2''),
              (Subworkflows, ''SW2'')},
      undeletable = {}\<rparr>"

text \<open>
  A pipeline whose module directories were deleted by hand: the registry still lists
  three modules, only the subworkflow has its directory.
\<close>

definition stale_pipeline :: pipeline where
  "stale_pipeline =
     \<lparr>modules_json =
        [((Modules, ''M1''), entry [direct]),
         ((Modules, ''M2''), entry [''SW2'']),
         ((Modules, ''M3''), entry [direct, ''SW2'']),
         ((Subworkflows, ''SW2''), entry [direct])],
      dirs = {(Subworkflows, ''SW2'')},
      undeletable = {}\<rparr>"

text \<open>
  A pipeline whose only component, a subworkflow installed directly, lost its
  directory.
\<close>

definition stale_subworkflow_pipeline :: pipeline where
  "stale_subworkflow_pipeline =
     \<lparr>modules_json = [((Subworkflows, ''SW3''), entry [direct])],
      dirs = {},
      undeletable = {}\<rparr>"

text \<open>A pipeline with one module installed directly and one that a subworkflow needs too.\<close>

definition modules_pipeline :: pipeline where
  "modules_pipeline =
     \<lparr>modules_json =
        [((Modules, ''fastqc''), entry [direct]),
         ((Modules, ''multiqc''), entry [direct, ''SW2'']),
         ((Subworkflows, ''SW2''), entry [direct])],
      dirs = {(Modules, ''fastqc''), (Modules, ''multiqc''), (Subworkflows, ''SW2'')},
      undeletable = {}\<rparr>"

text \<open>A malformed registry with a cycle: A is installed by B and B is installed by A.\<close>

definition cyclic_registry :: registry where
  "cyclic_registry =
     [((Subworkflows, ''A''), entry [''B'']),
      ((Subworkflows, ''B''), entry [''A'']),
      ((Modules, ''M''), entry [''B''])]"

section \<open>Properties\<close>

subsection \<open>The registry operations\<close>

lemma removeAll_Nil_iff: "removeAll p xs = [] \<longleftrightarrow> set xs \<subseteq> {p}"
  by (induction xs) auto

lemma lookup_remove_entry_other:
  "(ct', n') \<noteq> (ct, n) \<Longrightarrow>
     lookup (snd (remove_entry reg ct n rb)) ct' n' = lookup reg ct' n'"
  by (auto simp: remove_entry_def lookup_def Let_def update_conv' delete_conv'
           split: option.splits)

lemma lookup_remove_entry_same:
  "lookup (snd (remove_entry reg ct n rb)) ct n =
     (case lookup reg ct n of
        None \<Rightarrow> None
      | Some e \<Rightarrow>
          if removeAll (parent_link rb) (installed_by e) = [] then None
          else Some (e\<lparr>installed_by := removeAll (parent_link rb) (installed_by e)\<rparr>))"
  by (auto simp: remove_entry_def lookup_def Let_def update_conv' delete_conv'
           split: option.splits)

lemma fst_remove_entry:
  "fst (remove_entry reg ct n rb) \<longleftrightarrow>
     (\<exists>e. lookup reg ct n = Some e \<and> removeAll (parent_link rb) (installed_by e) = [])"
  by (auto simp: remove_entry_def Let_def split: option.splits)

lemma remove_entry_absent:
  "lookup reg ct n = None \<Longrightarrow> remove_entry reg ct n rb = (False, reg)"
  by (simp add: remove_entry_def)

lemma remove_entry_default:
  "remove_entry reg ct n None = remove_entry reg ct n (Some direct)"
  by (simp add: remove_entry_def parent_link_def split: option.splits)

lemma lookup_remove_entry_None:
  "lookup reg ct' n' = None \<Longrightarrow> lookup (snd (remove_entry reg ct n rb)) ct' n' = None"
  by (cases "(ct', n') = (ct, n)")
     (auto simp: lookup_remove_entry_same lookup_remove_entry_other)



subsection \<open>One pass of the loop\<close>

lemma remove_component_step:
  assumes "remove_component rb c (n, ct) r st = (res, st')"
  shows "modules_json st' = snd (remove_entry (modules_json st) ct n rb)"
    and "undeletable st' = undeletable st"
    and "dirs st' \<subseteq> dirs st"
    and "dirs st - dirs st' \<subseteq> {(ct, n)}"
    and "dirs st' \<noteq> dirs st \<Longrightarrow> fst (remove_entry (modules_json st) ct n rb)"
    and "res = Inr b \<Longrightarrow> (b \<longleftrightarrow> r \<or> dirs st' \<noteq> dirs st)"
  using assms
  by (auto simp: remove_component_def clear_component_dir_def Let_def
           split: prod.splits if_splits sum.splits)

lemma remove_loop_single:
  "remove_loop rb c [item] r st = remove_component rb c item r st"
proof (cases "remove_component rb c item r st")
  case (Pair res st1)
  then show ?thesis by (cases res) simp_all
qed

lemma lock_step_refl: "lock_step st st"
  by (simp add: lock_step_def)

lemma lock_step_trans:
  assumes "lock_step st st1" "lock_step st1 st2"
  shows "lock_step st st2"
proof -
  have a: "dirs st2 \<subseteq> dirs st" using assms by (auto simp: lock_step_def)
  have b: "undeletable st2 = undeletable st" using assms by (simp add: lock_step_def)
  have d: "\<And>ct n. lookup (modules_json st) ct n = None \<Longrightarrow> lookup (modules_json st2) ct n = None"
    using assms by (simp add: lock_step_def)
  have c: "\<And>ct n. (ct, n) \<in> dirs st - dirs st2 \<Longrightarrow>
             lookup (modules_json st) ct n \<noteq> None \<and> lookup (modules_json st2) ct n = None"
  proof -
    fix ct n assume k: "(ct, n) \<in> dirs st - dirs st2"
    show "lookup (modules_json st) ct n \<noteq> None \<and> lookup (modules_json st2) ct n = None"
    proof (cases "(ct, n) \<in> dirs st1")
      case True
      with k have "(ct, n) \<in> dirs st1 - dirs st2" by simp
      with assms(2) have "lookup (modules_json st1) ct n \<noteq> None"
        and "lookup (modules_json st2) ct n = None"
        unfolding lock_step_def by blast+
      moreover from assms(1) have "lookup (modules_json st) ct n = None
                                    \<Longrightarrow> lookup (modules_json st1) ct n = None"
        unfolding lock_step_def by blast
      ultimately show ?thesis by metis
    next
      case False
      with k have "(ct, n) \<in> dirs st - dirs st1" by simp
      with assms(1) have "lookup (modules_json st) ct n \<noteq> None"
        and "lookup (modules_json st1) ct n = None"
        unfolding lock_step_def by blast+
      moreover from assms(2) have "lookup (modules_json st1) ct n = None
                                    \<Longrightarrow> lookup (modules_json st2) ct n = None"
        unfolding lock_step_def by blast
      ultimately show ?thesis by metis
    qed
  qed
  show ?thesis
    unfolding lock_step_def using a b c d by blast
qed

lemma lock_step_component:
  assumes "remove_component rb c (n0, ct0) r st = (res, st')"
  shows "lock_step st st'"
proof -
  note s = remove_component_step [OF assms]
  have reg1: "modules_json st' = snd (remove_entry (modules_json st) ct0 n0 rb)"
    using s(1) .
  have d: "\<And>ct n. lookup (modules_json st) ct n = None
                     \<Longrightarrow> lookup (modules_json st') ct n = None"
    by (simp add: reg1 lookup_remove_entry_None)
  have c: "\<And>ct n. (ct, n) \<in> dirs st - dirs st'
                 \<Longrightarrow> lookup (modules_json st) ct n \<noteq> None \<and> lookup (modules_json st') ct n = None"
  proof -
    fix ct n assume k: "(ct, n) \<in> dirs st - dirs st'"
    with s(4) have eq: "ct = ct0" "n = n0" by auto
    from k have "dirs st' \<noteq> dirs st" by auto
    then have "fst (remove_entry (modules_json st) ct0 n0 rb)" by (rule s(5))
    then obtain e where e: "lookup (modules_json st) ct0 n0 = Some e"
      "removeAll (parent_link rb) (installed_by e) = []"
      unfolding fst_remove_entry by blast
    then show "lookup (modules_json st) ct n \<noteq> None \<and> lookup (modules_json st') ct n = None"
      by (simp add: eq reg1 lookup_remove_entry_same)
  qed
  show ?thesis
    unfolding lock_step_def using s(2) s(3) c d by blast
qed

subsection \<open>The whole loop\<close>

lemma remove_loop_lock_step:
  assumes "remove_loop rb c items r st = (res, st')"
  shows "lock_step st st' \<and> (\<forall>b. res = Inr b \<longrightarrow> (b \<longleftrightarrow> r \<or> dirs st' \<noteq> dirs st))"
  using assms
proof (induction items arbitrary: r st)
  case Nil
  then show ?case by (auto simp: lock_step_refl)
next
  case (Cons item items)
  obtain n0 ct0 where item: "item = (n0, ct0)" by (cases item)
  obtain res1 st1 where step: "remove_component rb c (n0, ct0) r st = (res1, st1)"
    by (cases "remove_component rb c (n0, ct0) r st")
  have ls1: "lock_step st st1" using step by (rule lock_step_component)
  show ?case
  proof (cases res1)
    case (Inl e)
    with Cons.prems item step have "res = Inl e" "st' = st1" by simp_all
    then show ?thesis using ls1 by simp
  next
    case (Inr r1)
    with Cons.prems item step have rest: "remove_loop rb c items r1 st1 = (res, st')" by simp
    note IH = Cons.IH [OF rest]
    have r1: "r1 \<longleftrightarrow> r \<or> dirs st1 \<noteq> dirs st"
      using remove_component_step(6) [OF step Inr] .
    have ls: "lock_step st st'" using ls1 IH lock_step_trans by blast
    have sub: "dirs st' \<subseteq> dirs st1" "dirs st1 \<subseteq> dirs st"
      using IH ls1 by (simp_all add: lock_step_def)
    have "\<forall>b. res = Inr b \<longrightarrow> (b \<longleftrightarrow> r \<or> dirs st' \<noteq> dirs st)"
    proof (intro allI impI)
      fix b assume "res = Inr b"
      with IH have "b \<longleftrightarrow> r1 \<or> dirs st' \<noteq> dirs st1" by blast
      with r1 sub show "b \<longleftrightarrow> r \<or> dirs st' \<noteq> dirs st" by blast
    qed
    with ls show ?thesis by blast
  qed
qed


subsection \<open>The dictionary of candidates\<close>

lemma length_dict_update: "length (dict_update d other) \<le> length d + length other"
proof -
  have step: "\<And>k v (al :: components_dict). length (AList.update k v al) \<le> Suc (length al)"
  proof -
    fix k v and al :: components_dict
    show "length (AList.update k v al) \<le> Suc (length al)"
      by (induction al) auto
  qed
  have "length (foldl (\<lambda>acc (k, v). AList.update k v acc) d other) \<le> length d + length other"
  proof (induction other arbitrary: d)
    case Nil
    then show ?case by simp
  next
    case (Cons x xs)
    obtain k v where x: "x = (k, v)" by (cases x)
    have "length (foldl (\<lambda>acc (k, v). AList.update k v acc) (AList.update k v d) xs)
            \<le> length (AList.update k v d) + length xs"
      by (rule Cons.IH)
    also have "\<dots> \<le> Suc (length d) + length xs" using step [of k v d] by simp
    finally show ?case by (simp add: x)
  qed
  then show ?thesis by (simp add: dict_update_def)
qed

lemma distinct_dict_update:
  "distinct (map fst d) \<Longrightarrow> distinct (map fst (dict_update d other))"
  unfolding dict_update_def
  by (induction other arbitrary: d) (auto simp: distinct_update)

lemma set_dict_update:
  "set (dict_update d other) \<subseteq> set d \<union> set other"
  unfolding dict_update_def
proof (induction other arbitrary: d)
  case Nil
  then show ?case by simp
next
  case (Cons x xs)
  obtain k v where x: "x = (k, v)" by (cases x)
  have "set (AList.update k v d) \<subseteq> insert (k, v) (set d)"
    by (induction d) auto
  with Cons.IH [of "AList.update k v d"] show ?case
    by (auto simp: x)
qed


subsection \<open>The traversal\<close>

lemma distinct_installed_by_component: "distinct (installed_by_component reg name)"
  by (simp add: installed_by_component_def)

lemma installed_by_component_keys:
  "set (installed_by_component reg name) \<subseteq> fst ` set reg"
  by (auto simp: installed_by_component_def)

lemma dependents_extends:
  "\<exists>new. dependents reg todo visited = visited @ new
       \<and> distinct new \<and> set new \<subseteq> fst ` set reg - set visited"
proof (induction reg todo visited rule: dependents.induct)
  case (1 reg visited)
  then show ?case by simp
next
  case (2 reg name todo visited)
  define found where "found = filter (\<lambda>k. k \<notin> set visited) (installed_by_component reg name)"
  have df: "distinct found"
    by (simp add: found_def distinct_installed_by_component)
  have sf: "set found \<subseteq> fst ` set reg - set visited"
    using installed_by_component_keys [of reg name] by (auto simp: found_def)
  from "2.IH" [OF found_def]
  obtain new where new: "dependents reg (todo @ map snd (filter (\<lambda>k. fst k = Subworkflows) found))
                           (visited @ found) = (visited @ found) @ new"
    "distinct new" "set new \<subseteq> fst ` set reg - set (visited @ found)"
    by blast
  have eq: "dependents reg (name # todo) visited = visited @ (found @ new)"
    using new(1) by (simp add: found_def Let_def)
  have "distinct (found @ new)" using df new(2,3) by auto
  moreover have "set (found @ new) \<subseteq> fst ` set reg - set visited"
    using sf new(3) by auto
  ultimately show ?case using eq by blast
qed

lemma length_distinct_keys:
  assumes "distinct new" "set new \<subseteq> fst ` set (reg :: registry)"
  shows "length new \<le> length reg"
proof -
  have "length new = card (set new)" using assms(1) by (simp add: distinct_card)
  also have "\<dots> \<le> card (fst ` set reg)" using assms(2) by (simp add: card_mono)
  also have "\<dots> \<le> card (set reg)" by (simp add: card_image_le)
  also have "\<dots> \<le> length reg" by (rule card_length)
  finally show ?thesis .
qed


subsection \<open>The example pipelines, evaluated\<close>

lemma cascade_remove_SW1:
  "remove (pipeline_command Subworkflows) cascade_pipeline ''SW1'' =
     (Inr True,
      \<lparr>modules_json =
         [((Subworkflows, ''SW1''), entry [direct]),
          ((Modules, ''M2''), entry [''SW2'']),
          ((Subworkflows, ''SW2''), entry [direct])],
       dirs = {(Subworkflows, ''SW1''), (Modules, ''M2''), (Subworkflows, ''SW2'')},
       undeletable = {}\<rparr>)"
  by code_simp


lemma modules_remove_fastqc:
  "remove (pipeline_command Modules) modules_pipeline ''fastqc'' =
     (Inr True,
      \<lparr>modules_json =
         [((Modules, ''multiqc''), entry [direct, ''SW2'']),
          ((Subworkflows, ''SW2''), entry [direct])],
       dirs = {(Modules, ''multiqc''), (Subworkflows, ''SW2'')},
       undeletable = {}\<rparr>)"
  by code_simp

section \<open>The claims\<close>

text \<open>
  C1. Removing one parent link through \<^verbatim>\<open>remove_entry\<close> deletes the record exactly
  when nothing is left in \<^verbatim>\<open>installed_by\<close>. A record with two or more parents stays,
  with the parent taken out, and the pass of the loop that made the call leaves every
  directory in place. A record that stays has a non-empty \<^verbatim>\<open>installed_by\<close>, a
  record is deleted only when its \<^verbatim>\<open>installed_by\<close> has become empty, and no other
  record changes.
\<close>

theorem remove_entry_reference_count:
  assumes "lookup (modules_json st) ct name = Some e"
  shows "(fst (remove_entry (modules_json st) ct name (Some p))
            \<longleftrightarrow> set (installed_by e) - {p} = {})
       \<and> (lookup (snd (remove_entry (modules_json st) ct name (Some p))) ct name = None
            \<longleftrightarrow> set (installed_by e) - {p} = {})
       \<and> (set (installed_by e) - {p} \<noteq> {} \<longrightarrow>
             (\<exists>e'. lookup (snd (remove_entry (modules_json st) ct name (Some p))) ct name = Some e'
                \<and> e' = e\<lparr>installed_by := removeAll p (installed_by e)\<rparr>
                \<and> set (installed_by e') = set (installed_by e) - {p}
                \<and> installed_by e' \<noteq> [])
           \<and> remove_component (Some p) component (name, ct) removed st
                = (Inr removed,
                   st\<lparr>modules_json := snd (remove_entry (modules_json st) ct name (Some p))\<rparr>)
           \<and> dirs (snd (remove_component (Some p) component (name, ct) removed st)) = dirs st)
       \<and> (2 \<le> card (set (installed_by e)) \<longrightarrow> set (installed_by e) - {p} \<noteq> {})
       \<and> (\<forall>ct' n'. (ct', n') \<noteq> (ct, name) \<longrightarrow>
             lookup (snd (remove_entry (modules_json st) ct name (Some p))) ct' n'
               = lookup (modules_json st) ct' n')"
proof -
  let ?reg = "modules_json st"
  let ?reg' = "snd (remove_entry ?reg ct name (Some p))"
  have p: "parent_link (Some p) = p" by (simp add: parent_link_def)
  have empty: "removeAll p (installed_by e) = [] \<longleftrightarrow> set (installed_by e) - {p} = {}"
    by (auto simp: removeAll_Nil_iff)
  have a: "fst (remove_entry ?reg ct name (Some p)) \<longleftrightarrow> set (installed_by e) - {p} = {}"
    using assms by (simp add: fst_remove_entry p empty)
  have b: "lookup ?reg' ct name = None \<longleftrightarrow> set (installed_by e) - {p} = {}"
    using assms by (simp add: lookup_remove_entry_same p empty)
  have c: "\<exists>e'. lookup ?reg' ct name = Some e'
              \<and> e' = e\<lparr>installed_by := removeAll p (installed_by e)\<rparr>
              \<and> set (installed_by e') = set (installed_by e) - {p}
              \<and> installed_by e' \<noteq> []"
    if "set (installed_by e) - {p} \<noteq> {}"
    using that assms by (simp add: lookup_remove_entry_same p empty)
  have d: "remove_component (Some p) component (name, ct) removed st
             = (Inr removed, st\<lparr>modules_json := ?reg'\<rparr>)"
    if "set (installed_by e) - {p} \<noteq> {}"
    using that a by (auto simp: remove_component_def split: prod.splits)
  have f: "set (installed_by e) - {p} \<noteq> {}" if two: "2 \<le> card (set (installed_by e))"
  proof
    assume "set (installed_by e) - {p} = {}"
    then have "set (installed_by e) \<subseteq> {p}" by auto
    then have "card (set (installed_by e)) \<le> card {p}"
      by (intro card_mono) auto
    with two show False by simp
  qed
  have g: "\<forall>ct' n'. (ct', n') \<noteq> (ct, name) \<longrightarrow> lookup ?reg' ct' n' = lookup ?reg ct' n'"
    using lookup_remove_entry_other by blast
  show ?thesis
    using a b c d f g by simp
qed

text \<open>
  In the cascade scenario M2 is installed by SW1 and SW2: revoking SW1 keeps the record,
  with SW2 as its only parent.
\<close>

theorem remove_entry_reference_count_witness:
  "lookup (modules_json cascade_pipeline) Modules ''M2'' = Some (entry [''SW1'', ''SW2''])
   \<and> \<not> fst (remove_entry (modules_json cascade_pipeline) Modules ''M2'' (Some ''SW1''))
   \<and> lookup (snd (remove_entry (modules_json cascade_pipeline) Modules ''M2'' (Some ''SW1'')))
        Modules ''M2'' = Some (entry [''SW2''])
   \<and> 2 \<le> card (set (installed_by (entry [''SW1'', ''SW2''])))"
proof -
  have h: "lookup (modules_json cascade_pipeline) Modules ''M2'' = Some (entry [''SW1'', ''SW2''])"
    by code_simp
  have two: "2 \<le> card (set (installed_by (entry [''SW1'', ''SW2''])))"
    by (simp add: entry_def)
  have left: "set (installed_by (entry [''SW1'', ''SW2''])) - {''SW1''} \<noteq> {}"
    by (simp add: entry_def)
  have r: "(entry [''SW1'', ''SW2''])\<lparr>installed_by :=
             removeAll ''SW1'' (installed_by (entry [''SW1'', ''SW2'']))\<rparr> = entry [''SW2'']"
    by (simp add: entry_def)
  from remove_entry_reference_count [OF h, of "''SW1''"] left r h two
  show ?thesis by simp
qed

text \<open>
  C4. For a component that is not a subworkflow (a module requested directly) the
  dictionary of candidates is the single entry for the component itself, no
  \<^verbatim>\<open>removed_by\<close> is passed, and the parent link that \<^verbatim>\<open>remove_entry\<close> revokes is
  "direct": the method is one pass of the loop for that entry, and the registry
  afterwards is the one that revoking "direct" from the component's record gives.
\<close>

theorem module_removal_revokes_direct:
  assumes "component_type self \<noteq> Subworkflows"
      and "repo_type self \<noteq> ''modules''"
      and "(component_type self, component) \<in> dirs st"
  shows "dependent_components_of (modules_json st) (component_type self) component
           = [(component, component_type self)]
       \<and> removed_by_of (component_type self) component = None
       \<and> parent_link (removed_by_of (component_type self) component) = direct
       \<and> remove self st component
           = remove_component None component (component, component_type self) False st
       \<and> modules_json (snd (remove self st component))
           = snd (remove_entry (modules_json st) (component_type self) component (Some direct))
       \<and> dirs st - dirs (snd (remove self st component)) \<subseteq> {(component_type self, component)}"
proof -
  let ?ct = "component_type self"
  have cands: "dependent_components_of (modules_json st) ?ct component = [(component, ?ct)]"
    using assms(1) by (simp add: dependent_components_of_def)
  have rb: "removed_by_of ?ct component = None"
    using assms(1) by (simp add: removed_by_of_def)
  have link: "parent_link (removed_by_of ?ct component) = direct"
    by (simp add: rb parent_link_def)
  have run: "remove self st component = remove_component None component (component, ?ct) False st"
    using assms(2,3) by (simp add: remove_def cands rb remove_loop_single del: remove_loop.simps)
  obtain res st' where step: "remove_component None component (component, ?ct) False st = (res, st')"
    by (cases "remove_component None component (component, ?ct) False st")
  have reg: "modules_json (snd (remove self st component))
               = snd (remove_entry (modules_json st) ?ct component (Some direct))"
    using remove_component_step(1) [OF step] by (simp add: run step remove_entry_default)
  have fs: "dirs st - dirs (snd (remove self st component)) \<subseteq> {(?ct, component)}"
    using remove_component_step(4) [OF step] by (simp add: run step)
  show ?thesis
    using cands rb link run reg fs by simp
qed

text \<open>
  Removing the directly installed module fastqc: its record and its directory go.
\<close>

theorem module_removal_revokes_direct_witness:
  "component_type (pipeline_command Modules) \<noteq> Subworkflows
   \<and> repo_type (pipeline_command Modules) \<noteq> ''modules''
   \<and> (component_type (pipeline_command Modules), ''fastqc'') \<in> dirs modules_pipeline
   \<and> dependent_components_of (modules_json modules_pipeline) Modules ''fastqc''
       = [(''fastqc'', Modules)]
   \<and> modules_json (snd (remove (pipeline_command Modules) modules_pipeline ''fastqc''))
       = snd (remove_entry (modules_json modules_pipeline) Modules ''fastqc'' (Some direct))
   \<and> lookup (modules_json (snd (remove (pipeline_command Modules) modules_pipeline ''fastqc'')))
        Modules ''fastqc'' = None"
proof -
  have h1: "component_type (pipeline_command Modules) \<noteq> Subworkflows"
    by (simp add: pipeline_command_def)
  have h2: "repo_type (pipeline_command Modules) \<noteq> ''modules''"
    by (simp add: pipeline_command_def)
  have h3: "(component_type (pipeline_command Modules), ''fastqc'') \<in> dirs modules_pipeline"
    by (simp add: pipeline_command_def modules_pipeline_def)
  have ct: "component_type (pipeline_command Modules) = Modules"
    by (simp add: pipeline_command_def)
  have gone: "lookup (modules_json (snd (remove (pipeline_command Modules) modules_pipeline ''fastqc'')))
                Modules ''fastqc'' = None"
    by (simp add: modules_remove_fastqc lookup_def)
  from module_removal_revokes_direct [OF h1 h2 h3]
  have cands: "dependent_components_of (modules_json modules_pipeline)
                 (component_type (pipeline_command Modules)) ''fastqc''
                 = [(''fastqc'', component_type (pipeline_command Modules))]"
    and reg: "modules_json (snd (remove (pipeline_command Modules) modules_pipeline ''fastqc''))
                = snd (remove_entry (modules_json modules_pipeline)
                         (component_type (pipeline_command Modules)) ''fastqc'' (Some direct))"
    by blast+
  from cands reg h1 h2 h3 gone show ?thesis by (simp add: ct)
qed

text \<open>
  C6. For a component that has neither a registry entry nor a directory the method
  reports failure to its caller, by returning false, and changes neither the registry
  nor the directories.
\<close>

theorem remove_not_installed:
  assumes "lookup (modules_json st) (component_type self) component = None"
      and "(component_type self, component) \<notin> dirs st"
  shows "remove self st component = (Inr False, st)"
  using assms by (simp add: remove_def remove_entry_absent)

text \<open>The stale pipeline has no module M9 at all.\<close>

theorem remove_not_installed_witness:
  "lookup (modules_json stale_pipeline) (component_type (pipeline_command Modules)) ''M9'' = None
   \<and> (component_type (pipeline_command Modules), ''M9'') \<notin> dirs stale_pipeline
   \<and> remove (pipeline_command Modules) stale_pipeline ''M9'' = (Inr False, stale_pipeline)"
proof -
  have h1: "lookup (modules_json stale_pipeline) (component_type (pipeline_command Modules)) ''M9''
              = None"
    by code_simp
  have h2: "(component_type (pipeline_command Modules), ''M9'') \<notin> dirs stale_pipeline"
    by (simp add: pipeline_command_def stale_pipeline_def)
  from remove_not_installed [OF h1 h2] h1 h2 show ?thesis by simp
qed

text \<open>
  C9. In a clone of the shared catalog itself (\<^verbatim>\<open>repo_type == "modules"\<close>) the method
  returns false and leaves the registry and the component directories as they were,
  whatever the component type and name.
\<close>

theorem remove_in_modules_repo:
  assumes "repo_type self = ''modules''"
  shows "remove self st component = (Inr False, st)"
  using assms by (simp add: remove_def)

text \<open>In a clone of the catalog the cascade scenario stays as it is.\<close>

theorem remove_in_modules_repo_witness:
  "repo_type (modules_repo_command Subworkflows) = ''modules''
   \<and> remove (modules_repo_command Subworkflows) cascade_pipeline ''SW1''
       = (Inr False, cascade_pipeline)"
proof -
  have h: "repo_type (modules_repo_command Subworkflows) = ''modules''"
    by (simp add: modules_repo_command_def)
  from remove_in_modules_repo [OF h] h show ?thesis by simp
qed



text \<open>
  C7. A component directory is deleted only in a pass of the loop whose
  \<^verbatim>\<open>remove_entry\<close> call answered Removed. Over the whole method: directories only
  disappear, every directory that disappeared belonged to a registry entry that
  existed before and is destroyed afterwards, so no directory of a kept entry is
  deleted; and when the method returns, its result is true exactly when some
  directory was deleted.
\<close>

theorem files_deleted_in_lock_step:
  "(dirs (snd (remove_component rb component (n, ct) removed st)) \<noteq> dirs st
      \<longrightarrow> fst (remove_entry (modules_json st) ct n rb))
   \<and> dirs (snd (remove self st component)) \<subseteq> dirs st
   \<and> (\<forall>ct n. (ct, n) \<in> dirs st - dirs (snd (remove self st component)) \<longrightarrow>
         lookup (modules_json st) ct n \<noteq> None
       \<and> lookup (modules_json (snd (remove self st component))) ct n = None)
   \<and> (\<forall>b. fst (remove self st component) = Inr b \<longrightarrow>
         (b \<longleftrightarrow> dirs (snd (remove self st component)) \<noteq> dirs st))"
proof -
  obtain res1 st1 where step: "remove_component rb component (n, ct) removed st = (res1, st1)"
    by (cases "remove_component rb component (n, ct) removed st")
  have one: "dirs (snd (remove_component rb component (n, ct) removed st)) \<noteq> dirs st
               \<longrightarrow> fst (remove_entry (modules_json st) ct n rb)"
    using remove_component_step(5) [OF step] by (simp add: step)
  obtain res st' where run: "remove self st component = (res, st')"
    by (cases "remove self st component")
  have "lock_step st st' \<and> (\<forall>b. res = Inr b \<longrightarrow> (b \<longleftrightarrow> dirs st' \<noteq> dirs st))"
  proof (cases "repo_type self = ''modules''")
    case True
    with run show ?thesis by (auto simp: remove_def lock_step_refl)
  next
    case False
    note pipeline = this
    show ?thesis
    proof (cases "(component_type self, component) \<in> dirs st")
      case True
      with pipeline run
      have "remove_loop (removed_by_of (component_type self) component) component
              (dependent_components_of (modules_json st) (component_type self) component)
              False st = (res, st')"
        by (simp add: remove_def)
      from remove_loop_lock_step [OF this] show ?thesis by simp
    next
      case False
      show ?thesis
      proof (cases "module_present (modules_json st) component")
        case True
        with pipeline False run
        have res: "res = Inr False"
          and st': "st' = st\<lparr>modules_json :=
                         snd (remove_entry (modules_json st) (component_type self) component None)\<rparr>"
          by (simp_all add: remove_def)
        have "lock_step st st'"
          by (simp add: lock_step_def st' lookup_remove_entry_None)
        then show ?thesis by (simp add: res st')
      next
        case False
        with pipeline \<open>(component_type self, component) \<notin> dirs st\<close> run
        show ?thesis by (auto simp: remove_def lock_step_refl)
      qed
    qed
  qed
  then have sub: "dirs st' \<subseteq> dirs st"
    and gone: "\<forall>ct n. (ct, n) \<in> dirs st - dirs st' \<longrightarrow>
                 lookup (modules_json st) ct n \<noteq> None \<and> lookup (modules_json st') ct n = None"
    and result: "\<forall>b. res = Inr b \<longrightarrow> (b \<longleftrightarrow> dirs st' \<noteq> dirs st)"
    unfolding lock_step_def by blast+
  show ?thesis
    using one sub gone result by (simp add: run)
qed

text \<open>
  In the cascade scenario the directory of M1 is deleted, its entry is destroyed, and
  the result is true.
\<close>

theorem files_deleted_in_lock_step_witness:
  "(Modules, ''M1'') \<in> dirs cascade_pipeline
      - dirs (snd (remove (pipeline_command Subworkflows) cascade_pipeline ''SW1''))
   \<and> lookup (modules_json cascade_pipeline) Modules ''M1'' \<noteq> None
   \<and> lookup (modules_json (snd (remove (pipeline_command Subworkflows) cascade_pipeline ''SW1'')))
        Modules ''M1'' = None
   \<and> fst (remove (pipeline_command Subworkflows) cascade_pipeline ''SW1'') = Inr True
   \<and> dirs (snd (remove (pipeline_command Subworkflows) cascade_pipeline ''SW1''))
        \<noteq> dirs cascade_pipeline"
proof -
  let ?self = "pipeline_command Subworkflows"
  let ?after = "snd (remove ?self cascade_pipeline ''SW1'')"
  have del: "(Modules, ''M1'') \<in> dirs cascade_pipeline - dirs ?after"
    by (simp add: cascade_remove_SW1) (simp add: cascade_pipeline_def)
  have res: "fst (remove ?self cascade_pipeline ''SW1'') = Inr True"
    by (simp add: cascade_remove_SW1)
  note t = files_deleted_in_lock_step
             [where st = cascade_pipeline and self = ?self and component = "''SW1''"]
  from t del have "lookup (modules_json cascade_pipeline) Modules ''M1'' \<noteq> None
                 \<and> lookup (modules_json ?after) Modules ''M1'' = None"
    by blast
  moreover from t res have "dirs ?after \<noteq> dirs cascade_pipeline"
    by blast
  ultimately show ?thesis using del res by blast
qed

subsection \<open>More evaluations\<close>

lemma cyclic_candidates:
  "dependent_components_of cyclic_registry Subworkflows ''A''
     = [(''A'', Subworkflows), (''B'', Subworkflows), (''M'', Modules)]"
  by code_simp

lemma stale_remove_M2:
  "remove (pipeline_command Modules) stale_pipeline ''M2'' = (Inr False, stale_pipeline)"
  by code_simp

lemma stale_subworkflow_not_seen:
  "remove (pipeline_command Subworkflows) stale_subworkflow_pipeline ''SW3''
     = (Inr False, stale_subworkflow_pipeline)"
  by code_simp

lemma stale_remove_M3:
  "remove (pipeline_command Modules) stale_pipeline ''M3'' =
     (Inr False,
      \<lparr>modules_json =
         [((Modules, ''M1''), entry [direct]),
          ((Modules, ''M2''), entry [''SW2'']),
          ((Modules, ''M3''), entry [''SW2'']),
          ((Subworkflows, ''SW2''), entry [direct])],
       dirs = {(Subworkflows, ''SW2'')},
       undeletable = {}\<rparr>)"
  by code_simp

text \<open>
  C8. For every registry, cyclic ones included, the dependency resolution of the
  method returns: the traversal is a total function (its termination is proved with
  its definition), it extends the visited keys by distinct keys of the registry, and
  the dictionary of candidates has distinct names, at most one entry more than the
  registry has, each entry being the component itself or a key of the registry.
\<close>

theorem dependent_resolution_is_finite:
  "(\<exists>new. dependents reg todo visited = visited @ new
       \<and> distinct new \<and> set new \<subseteq> fst ` set reg - set visited
       \<and> length new \<le> length reg)
   \<and> length (dependent_components_of reg ct component) \<le> Suc (length reg)
   \<and> distinct (map fst (dependent_components_of reg ct component))
   \<and> (\<forall>(n, t) \<in> set (dependent_components_of reg ct component).
         (n, t) = (component, ct) \<or> (t, n) \<in> fst ` set reg)"
proof -
  have trav: "\<exists>new. dependents reg todo visited = visited @ new
                \<and> distinct new \<and> set new \<subseteq> fst ` set reg - set visited
                \<and> length new \<le> length reg"
  proof -
    obtain new where new: "dependents reg todo visited = visited @ new" "distinct new"
      "set new \<subseteq> fst ` set reg - set visited"
      using dependents_extends by blast
    then have "length new \<le> length reg"
      by (intro length_distinct_keys) auto
    with new show ?thesis by blast
  qed
  have cands: "length (dependent_components_of reg ct component) \<le> Suc (length reg)
      \<and> distinct (map fst (dependent_components_of reg ct component))
      \<and> (\<forall>(n, t) \<in> set (dependent_components_of reg ct component).
            (n, t) = (component, ct) \<or> (t, n) \<in> fst ` set reg)"
  proof (cases ct)
    case Modules
    then show ?thesis by (simp add: dependent_components_of_def)
  next
    case Subworkflows
    obtain new where new: "dependents reg [component] [(Subworkflows, component)]
                             = [(Subworkflows, component)] @ new"
      "distinct new" "set new \<subseteq> fst ` set reg - set [(Subworkflows, component)]"
      using dependents_extends [of reg "[component]" "[(Subworkflows, component)]"] by blast
    let ?found = "map (\<lambda>(t, n). (n, t)) new"
    have g: "get_dependent_components reg Subworkflows component [(component, Subworkflows)]
               = dict_update [] ?found"
      using new(1) by (simp add: get_dependent_components_def)
    have d: "dependent_components_of reg ct component
               = dict_update [(component, Subworkflows)] (dict_update [] ?found)"
      using g Subworkflows by (simp add: dependent_components_of_def)
    have "length new \<le> length reg"
      using new(2,3) by (intro length_distinct_keys) auto
    then have l: "length (dependent_components_of reg ct component) \<le> Suc (length reg)"
      using length_dict_update [of "[(component, Subworkflows)]" "dict_update [] ?found"]
        length_dict_update [of "[]" ?found]
      by (simp add: d)
    have k: "distinct (map fst (dependent_components_of reg ct component))"
      by (simp add: d distinct_dict_update)
    have "set (dependent_components_of reg ct component)
            \<subseteq> insert (component, Subworkflows) (set ?found)"
      using set_dict_update [of "[(component, Subworkflows)]" "dict_update [] ?found"]
        set_dict_update [of "[]" ?found]
      by (auto simp: d)
    then have m: "\<forall>(n, t) \<in> set (dependent_components_of reg ct component).
                   (n, t) = (component, ct) \<or> (t, n) \<in> fst ` set reg"
      using new(3) Subworkflows by auto
    show ?thesis using l k m by blast
  qed
  show ?thesis by (rule conjI [OF trav cands])
qed

text \<open>
  The cyclic registry, where A is installed by B and B by A: resolving A gives A, B and
  the module that B installed, and stops.
\<close>

theorem dependent_resolution_is_finite_witness:
  "dependent_components_of cyclic_registry Subworkflows ''A''
     = [(''A'', Subworkflows), (''B'', Subworkflows), (''M'', Modules)]
   \<and> (''B'', Subworkflows) \<in> set (dependent_components_of cyclic_registry Subworkflows ''A'')
   \<and> (Subworkflows, ''B'') \<in> fst ` set cyclic_registry
   \<and> length (dependent_components_of cyclic_registry Subworkflows ''A'')
        \<le> Suc (length cyclic_registry)"
proof -
  have b: "(''B'', Subworkflows) \<in> set (dependent_components_of cyclic_registry Subworkflows ''A'')"
    by (simp add: cyclic_candidates)
  note t = dependent_resolution_is_finite
             [where reg = cyclic_registry and ct = Subworkflows and component = "''A''"]
  have len: "length (dependent_components_of cyclic_registry Subworkflows ''A'')
               \<le> Suc (length cyclic_registry)"
    using t [THEN conjunct2, THEN conjunct1] .
  have "\<forall>(n, t) \<in> set (dependent_components_of cyclic_registry Subworkflows ''A'').
          (n, t) = (''A'', Subworkflows) \<or> (t, n) \<in> fst ` set cyclic_registry"
    using t [THEN conjunct2, THEN conjunct2, THEN conjunct2] .
  from bspec [OF this b] have key: "(Subworkflows, ''B'') \<in> fst ` set cyclic_registry"
    by simp
  show ?thesis
    by (intro conjI) (rule cyclic_candidates, rule b, rule key, rule len)
qed

text \<open>
  C5. The claim: for a component whose registry entry exists but whose directory does
  not, the method purges the stale entry, reports no physical removal and raises no
  error. Evaluated on M2 of the stale pipeline, whose entry lists SW2 and whose
  directory is gone: the method returns false and raises no error, but the entry is
  still in the registry afterwards. Line 61 calls \<^verbatim>\<open>remove_entry\<close> without a parent
  link, which revokes "direct" and nothing else, and the entry of M2 does not list
  "direct".
\<close>

theorem stale_entry_with_parent_stays:
  "repo_type (pipeline_command Modules) \<noteq> ''modules''
   \<and> lookup (modules_json stale_pipeline) Modules ''M2'' = Some (entry [''SW2''])
   \<and> (Modules, ''M2'') \<notin> dirs stale_pipeline
   \<and> fst (remove (pipeline_command Modules) stale_pipeline ''M2'') = Inr False
   \<and> lookup (modules_json (snd (remove (pipeline_command Modules) stale_pipeline ''M2'')))
        Modules ''M2'' = Some (entry [''SW2''])"
proof -
  have "repo_type (pipeline_command Modules) \<noteq> ''modules''"
    by (simp add: pipeline_command_def)
  moreover have "lookup (modules_json stale_pipeline) Modules ''M2'' = Some (entry [''SW2''])"
    by code_simp
  moreover have "(Modules, ''M2'') \<notin> dirs stale_pipeline"
    by (simp add: stale_pipeline_def)
  ultimately show ?thesis by (simp add: stale_remove_M2)
qed

text \<open>
  C10. The claim: in the reconciliation branch \<^verbatim>\<open>remove_entry\<close> is called without a
  \<^verbatim>\<open>removed_by\<close> argument, so the stale entry is dropped even if it still lists
  other parents. Evaluated on M3 of the stale pipeline, installed directly and by SW2,
  whose directory is gone: the call without \<^verbatim>\<open>removed_by\<close> is made, and the entry
  is not dropped; it stays in the registry with SW2 as its parent.
\<close>

theorem stale_entry_with_other_parent_kept:
  "(Modules, ''M3'') \<notin> dirs stale_pipeline
   \<and> lookup (modules_json stale_pipeline) Modules ''M3'' = Some (entry [direct, ''SW2''])
   \<and> snd (remove (pipeline_command Modules) stale_pipeline ''M3'')
       = stale_pipeline\<lparr>modules_json :=
           snd (remove_entry (modules_json stale_pipeline) Modules ''M3'' None)\<rparr>
   \<and> lookup (modules_json (snd (remove (pipeline_command Modules) stale_pipeline ''M3'')))
        Modules ''M3'' = Some (entry [''SW2''])"
proof -
  have "(Modules, ''M3'') \<notin> dirs stale_pipeline"
    by (simp add: stale_pipeline_def)
  moreover have "lookup (modules_json stale_pipeline) Modules ''M3''
                   = Some (entry [direct, ''SW2''])"
    by code_simp
  moreover have "snd (remove (pipeline_command Modules) stale_pipeline ''M3'')
                   = stale_pipeline\<lparr>modules_json :=
                       snd (remove_entry (modules_json stale_pipeline) Modules ''M3'' None)\<rparr>"
    by code_simp
  moreover have "lookup (modules_json (snd (remove (pipeline_command Modules) stale_pipeline ''M3'')))
                   Modules ''M3'' = Some (entry [''SW2''])"
    by (simp add: stale_remove_M3 lookup_def)
  ultimately show ?thesis by blast
qed

end
